theory Spec2Isabelle
  imports Main "HOL-Library.Sublist"
begin

section \<open>The message table of the headlines front end\<close>

text \<open>
  The script keeps its notification log in the page itself: the rows of the element with
  id \<open>msg_tbl\<close>. \<open>msg_add\<close> builds the markup of one row from a template, removes old
  rows and then assigns the old content followed by the new markup to \<open>innerHTML\<close>, so
  the browser reads the whole content again as HTML. \<open>msg_clear\<close> empties the element.
  The model follows the two functions and the constant \<open>max_msg_cnt\<close> line by line, the
  reading of the markup included.

  What is taken from outside the script:
  \<^item> the page holds the element \<open>msg_tbl\<close>, a table section; its rows, in document order,
    are the state;
  \<^item> the text of \<open>new Date()\<close> is an argument (\<open>now\<close>) of the model;
  \<^item> the string conversion of values and the reading and writing of markup are the
    browser's; they are followed for the part described with \<open>to_string\<close>,
    \<open>serialize\<close> and \<open>parse\<close>, and a step out of that part gives the outcome
    \<open>Beyond\<close>, which says nothing about the table.
\<close>

subsection \<open>Outcomes\<close>

datatype error = TypeError

datatype 'a outcome = Raise error | Beyond | Return 'a

subsection \<open>Values passed by the handlers\<close>

text \<open>
  The handlers pass string literals, template strings, number literals and fields of a
  JSON reply; an argument left out is \<open>undefined\<close>. \<open>JNum\<close> is an integer-valued
  number. \<open>JOther\<close> is any other value (a number that is not an integer, an object, an
  array, a symbol), given by what the script can see of it: whether it counts as true in
  a test, and the text its string conversion yields, \<open>None\<close> when the conversion raises
  (a symbol, an object without a callable \<open>toString\<close>).
\<close>

datatype jsval = JUndefined | JNull | JBool bool | JNum int | JStr string
  | JOther bool "string option"

fun digits :: "nat \<Rightarrow> string" where
  "digits n =
     (if n < 10 then [''0123456789'' ! n]
      else digits (n div 10) @ [''0123456789'' ! (n mod 10)])"

declare digits.simps [simp del]

text \<open>
  The text a template literal \<open>${v}\<close> produces for a value. Integers up to \<open>2^53\<close> in
  magnitude are printed digit by digit; larger numbers are rounded or printed with an
  exponent, which is not followed here.
\<close>

fun to_string :: "jsval \<Rightarrow> string outcome" where
  "to_string JUndefined = Return ''undefined''"
| "to_string JNull = Return ''null''"
| "to_string (JBool b) = Return (if b then ''true'' else ''false'')"
| "to_string (JNum n) =
     (if \<bar>n\<bar> \<le> 9007199254740992
      then Return (if n < 0 then CHR ''-'' # digits (nat (- n)) else digits (nat n))
      else Beyond)"
| "to_string (JStr s) = Return s"
| "to_string (JOther t None) = Raise TypeError"
| "to_string (JOther t (Some s)) = Return s"


text \<open>
  The parameter list \<open>(msg, level=1)\<close>: a default applies when the argument is
  \<open>undefined\<close>, which is also what a call with one argument passes.
\<close>

definition level_default :: "jsval \<Rightarrow> jsval" where
  "level_default lvl = (if lvl = JUndefined then JNum 1 else lvl)"

subsection \<open>Rows and their markup\<close>

text \<open>
  The rows followed here are rows of \<open>td\<close> cells. A cell holds text and, after it,
  possibly one \<open>plaintext\<close> element with its own text. Characters are code units below
  256.
\<close>

datatype cell = Cell string "string option"

type_synonym row = "cell list"

text \<open>
  The template
  \<^verbatim>\<open><tr><td>${new Date()}</td><td>${level}</td><td>${msg}</td><td></td></tr>\<close>:
  the three texts go into the markup as they are.
\<close>

definition row_markup :: "string \<Rightarrow> string \<Rightarrow> string \<Rightarrow> string" where
  "row_markup now lvl msg =
     ''<tr><td>'' @ now @ ''</td><td>'' @ lvl @ ''</td><td>'' @ msg @ ''</td><td></td></tr>''"

text \<open>
  Reading \<open>innerHTML\<close> writes the rows as markup. In the text of a cell the characters
  \<open>&\<close>, \<open><\<close>, \<open>>\<close> and the no-break space are written as character references;
  the text of a \<open>plaintext\<close> element is written as it is, between its tags.
\<close>

definition escape_char :: "char \<Rightarrow> string" where
  "escape_char c =
     (if c = CHR ''&'' then ''&amp;''
      else if c = CHR ''<'' then ''&lt;''
      else if c = CHR ''>'' then ''&gt;''
      else if c = CHR 0xA0 then ''&nbsp;''
      else [c])"

definition escape :: "string \<Rightarrow> string" where
  "escape t = concat (map escape_char t)"

fun serialize_cell :: "cell \<Rightarrow> string" where
  "serialize_cell (Cell t None) = ''<td>'' @ escape t @ ''</td>''"
| "serialize_cell (Cell t (Some p)) =
     ''<td>'' @ escape t @ ''<plaintext>'' @ p @ ''</plaintext>'' @ ''</td>''"

definition serialize_row :: "row \<Rightarrow> string" where
  "serialize_row cells = ''<tr>'' @ concat (map serialize_cell cells) @ ''</tr>''"

definition serialize :: "row list \<Rightarrow> string" where
  "serialize rows = concat (map serialize_row rows)"

text \<open>
  Assigning to \<open>innerHTML\<close> reads markup. The part of HTML followed is: rows
  \<open><tr>\<close> ... \<open></tr>\<close> of cells \<open><td>\<close> ... \<open></td>\<close>; in a cell, text characters,
  the four character references above, and the start tag \<open><plaintext>\<close>, after which
  all that follows, to the end of the input, is the text of that element. Any other tag
  or reference, a carriage return or a NUL character (which the browser rewrites), and
  input that ends inside a row give \<open>Beyond\<close>.
\<close>

definition after_prefix :: "string \<Rightarrow> string \<Rightarrow> string option" where
  "after_prefix p s =
     (if length p \<le> length s \<and> take (length p) s = p then Some (drop (length p) s) else None)"

definition clean_text :: "string \<Rightarrow> bool" where
  "clean_text t = list_all (\<lambda>c. c \<noteq> CHR 0x0D \<and> c \<noteq> CHR 0x00) t"

datatype mode = In_body | In_row | In_cell

function parse :: "mode \<Rightarrow> row list \<Rightarrow> cell list \<Rightarrow> string \<Rightarrow> string \<Rightarrow> row list outcome" where
  "parse In_body rows cells txt s =
     (if s = [] then Return rows
      else case after_prefix ''<tr>'' s of
             Some r \<Rightarrow> parse In_row rows [] [] r
           | None \<Rightarrow> Beyond)"
| "parse In_row rows cells txt s =
     (case after_prefix ''<td>'' s of
        Some r \<Rightarrow> parse In_cell rows cells [] r
      | None \<Rightarrow>
          (case after_prefix ''</tr>'' s of
             Some r \<Rightarrow> parse In_body (rows @ [cells]) [] [] r
           | None \<Rightarrow> Beyond))"
| "parse In_cell rows cells txt s =
     (case after_prefix ''</td>'' s of
        Some r \<Rightarrow> parse In_row rows (cells @ [Cell txt None]) [] r
      | None \<Rightarrow>
     (case after_prefix ''<plaintext>'' s of
        Some r \<Rightarrow>
          (if clean_text r then Return (rows @ [cells @ [Cell txt (Some r)]]) else Beyond)
      | None \<Rightarrow>
     (case after_prefix ''&amp;'' s of
        Some r \<Rightarrow> parse In_cell rows cells (txt @ ''&'') r
      | None \<Rightarrow>
     (case after_prefix ''&lt;'' s of
        Some r \<Rightarrow> parse In_cell rows cells (txt @ ''<'') r
      | None \<Rightarrow>
     (case after_prefix ''&gt;'' s of
        Some r \<Rightarrow> parse In_cell rows cells (txt @ ''>'') r
      | None \<Rightarrow>
     (case after_prefix ''&nbsp;'' s of
        Some r \<Rightarrow> parse In_cell rows cells (txt @ [CHR 0xA0]) r
      | None \<Rightarrow>
     (case s of
        [] \<Rightarrow> Beyond
      | c # r \<Rightarrow>
          (if c = CHR ''<'' \<or> c = CHR ''&'' \<or> c = CHR 0x0D \<or> c = CHR 0x00 then Beyond
           else parse In_cell rows cells (txt @ [c]) r))))))))"
  by pat_completeness auto
termination
  by (relation "measure (\<lambda>(m, rows, cells, txt, s). length s)")
    (auto simp: after_prefix_def split: if_splits)

declare parse.simps [simp del]

definition parse_rows :: "string \<Rightarrow> row list outcome" where
  "parse_rows s = parse In_body [] [] [] s"

subsection \<open>The table and its two operations\<close>

definition max_msg_cnt :: nat where
  "max_msg_cnt = 5"

text \<open>\<open>msg_clear\<close> assigns the empty string to \<open>innerHTML\<close>: no row is left.\<close>

definition msg_clear :: "row list \<Rightarrow> row list" where
  "msg_clear tbl = []"

text \<open>
  \<open>$('#msg_tbl tr')\<close> is a snapshot of the row elements. An element is more than its
  content (two rows may read the same), so each one carries its position at the time of
  the query as its identity, and \<open>remove()\<close> takes out the element with that identity.
\<close>

type_synonym node = "nat \<times> row"

definition query_rows :: "row list \<Rightarrow> node list" where
  "query_rows tbl = enumerate 0 tbl"

definition remove_node :: "node \<Rightarrow> node list \<Rightarrow> node list" where
  "remove_node nd live = filter (\<lambda>x. fst x \<noteq> fst nd) live"

text \<open>
  The loop \<^verbatim>\<open>while (cnt >= max_msg_cnt) { rows[i].remove(); i++; cnt-- }\<close>.
  \<open>rows\<close> is the snapshot, \<open>live\<close> the rows still in the table. Reading \<open>rows[i]\<close>
  past the end gives \<open>undefined\<close>, and calling \<open>remove\<close> on it raises.
\<close>

function evict_loop :: "node list \<Rightarrow> nat \<Rightarrow> nat \<Rightarrow> node list \<Rightarrow> node list outcome" where
  "evict_loop rows i cnt live =
     (if max_msg_cnt \<le> cnt then
        (if i < length rows
         then evict_loop rows (i + 1) (cnt - 1) (remove_node (rows ! i) live)
         else Raise TypeError)
      else Return live)"
  by pat_completeness auto
termination
  by (relation "measure (\<lambda>(rows, i, cnt, live). cnt)") (auto simp: max_msg_cnt_def)

declare evict_loop.simps [simp del]

text \<open>
  \<open>msg_add\<close>: the template converts \<open>level\<close> and then \<open>msg\<close> to text and builds the
  markup of the row; then the snapshot is taken and the loop runs; then
  \<open>msg_tbl.innerHTML += row\<close> writes the rows that are left as markup, puts the new
  markup after it and reads the result as the new content of the table.
\<close>

definition msg_add :: "jsval \<Rightarrow> jsval \<Rightarrow> string \<Rightarrow> row list \<Rightarrow> row list outcome" where
  "msg_add msg lvl now tbl =
     (case to_string (level_default lvl) of
        Raise e \<Rightarrow> Raise e
      | Beyond \<Rightarrow> Beyond
      | Return l \<Rightarrow>
     (case to_string msg of
        Raise e \<Rightarrow> Raise e
      | Beyond \<Rightarrow> Beyond
      | Return m \<Rightarrow>
     (let row = row_markup now l m;
          rows = query_rows tbl
      in case evict_loop rows 0 (length rows) rows of
           Raise e \<Rightarrow> Raise e
         | Beyond \<Rightarrow> Beyond
         | Return live \<Rightarrow> parse_rows (serialize (map snd live) @ row))))"




subsection \<open>Sequences of calls\<close>

datatype call = Msg_add jsval jsval string | Msg_clear

fun exec :: "call \<Rightarrow> row list \<Rightarrow> row list outcome" where
  "exec (Msg_add msg lvl now) tbl = msg_add msg lvl now tbl"
| "exec Msg_clear tbl = Return (msg_clear tbl)"

text \<open>Calls run one after the other, as in one handler; a raise ends the sequence.\<close>

fun run :: "call list \<Rightarrow> row list \<Rightarrow> row list outcome" where
  "run [] tbl = Return tbl"
| "run (c # cs) tbl =
     (case exec c tbl of
        Raise e \<Rightarrow> Raise e
      | Beyond \<Rightarrow> Beyond
      | Return tbl' \<Rightarrow> run cs tbl')"

text \<open>A sequence of \<open>msg_add\<close> calls, from the arguments and the time of each call.\<close>

definition appends :: "(jsval \<times> jsval \<times> string) list \<Rightarrow> call list" where
  "appends args = map (\<lambda>(msg, lvl, now). Msg_add msg lvl now) args"

subsection \<open>Texts without markup\<close>

text \<open>
  A text is plain when it has no \<open><\<close>, no \<open>&\<close>, no carriage return and no NUL: read
  as markup it is itself. A value is inert when its conversion returns a plain text; a
  call is inert when its timestamp is plain and its level (after the default) and its
  message are inert. A table is clean when its cells hold text without carriage return
  and NUL and no \<open>plaintext\<close> element.
\<close>

definition plain :: "string \<Rightarrow> bool" where
  "plain t =
     list_all (\<lambda>c. c \<noteq> CHR ''<'' \<and> c \<noteq> CHR ''&'' \<and> c \<noteq> CHR 0x0D \<and> c \<noteq> CHR 0x00) t"

definition inert :: "jsval \<Rightarrow> bool" where
  "inert v = (case to_string v of Return t \<Rightarrow> plain t | Raise e \<Rightarrow> False | Beyond \<Rightarrow> False)"

fun inert_call :: "call \<Rightarrow> bool" where
  "inert_call (Msg_add msg lvl now) = (plain now \<and> inert (level_default lvl) \<and> inert msg)"
| "inert_call Msg_clear = True"

fun clean_cell :: "cell \<Rightarrow> bool" where
  "clean_cell (Cell t None) = clean_text t"
| "clean_cell (Cell t (Some p)) = False"

definition clean :: "row list \<Rightarrow> bool" where
  "clean tbl = list_all (list_all clean_cell) tbl"

text \<open>
  Two names for the statements below, not part of the script: the text a value converts
  to, and the row of four text cells that the template is read as when its texts are
  plain (lemma \<open>parse_row_markup\<close>).
\<close>

definition text_of :: "jsval \<Rightarrow> string" where
  "text_of v = (case to_string v of Return t \<Rightarrow> t | Raise e \<Rightarrow> [] | Beyond \<Rightarrow> [])"

definition new_row :: "string \<Rightarrow> jsval \<Rightarrow> jsval \<Rightarrow> row" where
  "new_row now lvl msg =
     [Cell now None, Cell (text_of lvl) None, Cell (text_of msg) None, Cell [] None]"

text \<open>The rows a sequence of calls with plain texts builds, in the order of the calls.\<close>

fun created :: "call list \<Rightarrow> row list" where
  "created [] = []"
| "created (Msg_add msg lvl now # cs) = new_row now (level_default lvl) msg # created cs"
| "created (Msg_clear # cs) = created cs"

subsection \<open>The reply handler of \<open>rate_item\<close>\<close>



section \<open>What the loop computes\<close>

lemma drop_query_rows: "drop i (enumerate n xs) = enumerate (n + i) (drop i xs)"
  by (induction xs arbitrary: i n) (auto simp: drop_Cons split: nat.splits)

lemma remove_first_node:
  "remove_node (k, x) (enumerate k (x # xs)) = enumerate (Suc k) xs"
proof -
  have "\<forall>p \<in> set (enumerate (Suc k) xs). fst p \<noteq> k"
    by (auto simp: in_set_enumerate_eq)
  then have "filter (\<lambda>p. fst p \<noteq> k) (enumerate (Suc k) xs) = enumerate (Suc k) xs"
    by (simp add: filter_id_conv)
  then show ?thesis
    by (simp add: remove_node_def)
qed

lemma remove_next_row:
  assumes "i < length tbl"
  shows "remove_node (enumerate 0 tbl ! i) (drop i (enumerate 0 tbl)) = drop (Suc i) (enumerate 0 tbl)"
proof -
  from assms have split: "drop i tbl = tbl ! i # drop (Suc i) tbl"
    by (simp add: Cons_nth_drop_Suc)
  have "remove_node (enumerate 0 tbl ! i) (drop i (enumerate 0 tbl))
        = remove_node (i, tbl ! i) (enumerate i (tbl ! i # drop (Suc i) tbl))"
    using assms by (simp add: nth_enumerate_eq drop_query_rows split)
  also have "\<dots> = enumerate (Suc i) (drop (Suc i) tbl)"
    by (rule remove_first_node)
  also have "\<dots> = drop (Suc i) (enumerate 0 tbl)"
    by (simp add: drop_query_rows)
  finally show ?thesis .
qed

text \<open>
  With the snapshot of a table and the rows from position \<open>i\<close> on still in it, the
  loop never reads past the snapshot and stops with the last \<open>max_msg_cnt - 1\<close> rows
  (or with all rows from \<open>i\<close> on, when these are fewer).
\<close>

lemma evict_loop_drops:
  "i \<le> length tbl \<Longrightarrow>
   evict_loop (enumerate 0 tbl) i (length tbl - i) (drop i (enumerate 0 tbl))
   = Return (drop (max i (length tbl - (max_msg_cnt - 1))) (enumerate 0 tbl))"
proof (induction "length tbl - i" arbitrary: i rule: less_induct)
  case less
  show ?case
  proof (cases "max_msg_cnt \<le> length tbl - i")
    case True
    then have lt: "i < length tbl" and nxt: "Suc i \<le> length tbl"
      and far: "max i (length tbl - (max_msg_cnt - 1)) = max (Suc i) (length tbl - (max_msg_cnt - 1))"
      by (auto simp: max_msg_cnt_def)
    have smaller: "length tbl - Suc i < length tbl - i"
      using lt by simp
    have "evict_loop (enumerate 0 tbl) i (length tbl - i) (drop i (enumerate 0 tbl))
          = evict_loop (enumerate 0 tbl) (Suc i) (length tbl - Suc i) (drop (Suc i) (enumerate 0 tbl))"
      using True lt by (subst evict_loop.simps) (simp add: remove_next_row)
    also have "\<dots> = Return (drop (max (Suc i) (length tbl - (max_msg_cnt - 1))) (enumerate 0 tbl))"
      using less.hyps [OF smaller nxt] .
    finally show ?thesis
      by (simp only: far)
  next
    case False
    then have "max i (length tbl - (max_msg_cnt - 1)) = i"
      by (auto simp: max_msg_cnt_def)
    with False show ?thesis
      by (subst evict_loop.simps) simp
  qed
qed


lemma rows_of_drop: "map snd (drop k (enumerate 0 tbl)) = drop k tbl"
  by (simp add: drop_map [symmetric])

section \<open>Reading markup back\<close>

text \<open>One step of the reader at each tag of a row.\<close>

lemma parse_end: "parse In_body R C x [] = Return R"
  by (subst parse.simps) simp

lemma parse_open_row: "parse In_body R C x (''<tr>'' @ s) = parse In_row R [] [] s"
  by (subst parse.simps) (simp add: after_prefix_def)

lemma parse_open_cell: "parse In_row R C x (''<td>'' @ s) = parse In_cell R C [] s"
  by (subst parse.simps) (simp add: after_prefix_def)

lemma parse_close_row: "parse In_row R C x (''</tr>'' @ s) = parse In_body (R @ [C]) [] [] s"
  by (subst parse.simps) (simp add: after_prefix_def)

lemma parse_close_cell: "parse In_cell R C x (''</td>'' @ s) = parse In_row R (C @ [Cell x None]) [] s"
  by (subst parse.simps) (simp add: after_prefix_def)

lemmas parse_tag = parse_open_row [simplified] parse_open_cell [simplified]
  parse_close_row [simplified] parse_close_cell [simplified]

lemma parse_char:
  "c \<noteq> CHR ''<'' \<Longrightarrow> c \<noteq> CHR ''&'' \<Longrightarrow> c \<noteq> CHR 0x0D \<Longrightarrow> c \<noteq> CHR 0x00 \<Longrightarrow>
   parse In_cell R C x (c # s) = parse In_cell R C (x @ [c]) s"
  by (subst parse.simps) (simp add: after_prefix_def)

lemma parse_escaped_char:
  "c \<noteq> CHR 0x0D \<Longrightarrow> c \<noteq> CHR 0x00 \<Longrightarrow>
   parse In_cell R C x (escape_char c @ s) = parse In_cell R C (x @ [c]) s"
  by (subst parse.simps) (simp add: after_prefix_def escape_char_def)

text \<open>A plain text in a cell is read as it stands.\<close>

lemma parse_plain_text:
  "plain t \<Longrightarrow> parse In_cell R C x (t @ s) = parse In_cell R C (x @ t) s"
proof (induction t arbitrary: x)
  case Nil
  then show ?case by simp
next
  case (Cons c t)
  then have "plain t" and c: "c \<noteq> CHR ''<''" "c \<noteq> CHR ''&''" "c \<noteq> CHR 0x0D" "c \<noteq> CHR 0x00"
    by (simp_all add: plain_def)
  have "parse In_cell R C x ((c # t) @ s) = parse In_cell R C (x @ [c]) (t @ s)"
    using c by (simp add: parse_char)
  also have "\<dots> = parse In_cell R C ((x @ [c]) @ t) s"
    using \<open>plain t\<close> by (rule Cons.IH)
  finally show ?case by simp
qed

text \<open>The text of a cell, written with its character references, is read back as it was.\<close>

lemma parse_escaped_text:
  "clean_text t \<Longrightarrow> parse In_cell R C x (escape t @ s) = parse In_cell R C (x @ t) s"
proof (induction t arbitrary: x)
  case Nil
  then show ?case by (simp add: escape_def)
next
  case (Cons c t)
  then have "clean_text t" and c: "c \<noteq> CHR 0x0D" "c \<noteq> CHR 0x00"
    by (simp_all add: clean_text_def)
  have "parse In_cell R C x (escape (c # t) @ s) = parse In_cell R C x (escape_char c @ escape t @ s)"
    by (simp add: escape_def)
  also have "\<dots> = parse In_cell R C (x @ [c]) (escape t @ s)"
    using c by (rule parse_escaped_char)
  also have "\<dots> = parse In_cell R C ((x @ [c]) @ t) s"
    using \<open>clean_text t\<close> by (rule Cons.IH)
  finally show ?case by simp
qed

lemma parse_cell:
  "clean_cell c \<Longrightarrow> parse In_row R C [] (serialize_cell c @ s) = parse In_row R (C @ [c]) [] s"
proof (cases c)
  case (Cell t p)
  assume "clean_cell c"
  with Cell have p: "p = None" and t: "clean_text t"
    by (cases p; simp)+
  show ?thesis
    using t by (simp add: Cell p parse_tag parse_escaped_text)
qed

lemma parse_cells:
  "list_all clean_cell cs \<Longrightarrow>
   parse In_row R C [] (concat (map serialize_cell cs) @ s) = parse In_row R (C @ cs) [] s"
proof (induction cs arbitrary: C)
  case Nil
  then show ?case by simp
next
  case (Cons c cs)
  then have c: "clean_cell c" and cs: "list_all clean_cell cs"
    by simp_all
  have "parse In_row R C [] (concat (map serialize_cell (c # cs)) @ s)
        = parse In_row R C [] (serialize_cell c @ concat (map serialize_cell cs) @ s)"
    by simp
  also have "\<dots> = parse In_row R (C @ [c]) [] (concat (map serialize_cell cs) @ s)"
    using c by (rule parse_cell)
  also have "\<dots> = parse In_row R ((C @ [c]) @ cs) [] s"
    using cs by (rule Cons.IH)
  finally show ?case by simp
qed

lemma parse_row:
  "list_all clean_cell r \<Longrightarrow>
   parse In_body R [] [] (serialize_row r @ s) = parse In_body (R @ [r]) [] [] s"
  using parse_cells [of r R "[]" "''</tr>'' @ s"]
  by (simp add: serialize_row_def parse_tag)

text \<open>
  The rows of a clean table, written as markup and followed by any further markup, are
  read back as they were, before what the further markup gives.
\<close>

lemma parse_serialize:
  "clean rows \<Longrightarrow> parse In_body R [] [] (serialize rows @ s) = parse In_body (R @ rows) [] [] s"
proof (induction rows arbitrary: R)
  case Nil
  then show ?case by (simp add: serialize_def)
next
  case (Cons r rows)
  then have r: "list_all clean_cell r" and rows: "clean rows"
    by (simp_all add: clean_def)
  have "parse In_body R [] [] (serialize (r # rows) @ s)
        = parse In_body R [] [] (serialize_row r @ serialize rows @ s)"
    by (simp add: serialize_def)
  also have "\<dots> = parse In_body (R @ [r]) [] [] (serialize rows @ s)"
    using r by (rule parse_row)
  also have "\<dots> = parse In_body ((R @ [r]) @ rows) [] [] s"
    using rows by (rule Cons.IH)
  finally show ?case by simp
qed

text \<open>The markup of the template, with plain texts, is read as one row of four cells.\<close>

lemma parse_row_markup:
  assumes "plain now" "plain l" "plain m"
  shows "parse In_body R [] [] (row_markup now l m)
         = Return (R @ [[Cell now None, Cell l None, Cell m None, Cell [] None]])"
  using assms by (simp add: row_markup_def parse_tag parse_plain_text parse_end)

section \<open>One call on plain texts\<close>

lemma plain_clean_text: "plain t \<Longrightarrow> clean_text t"
  by (induction t) (auto simp: plain_def clean_text_def)

lemma inert_text: "inert v \<Longrightarrow> to_string v = Return (text_of v) \<and> plain (text_of v)"
  by (cases "to_string v") (auto simp: inert_def text_of_def)

lemma clean_drop: "clean tbl \<Longrightarrow> clean (drop k tbl)"
  by (simp add: clean_def list_all_iff) (meson in_set_dropD)

lemma clean_new_row: "plain now \<Longrightarrow> inert lvl \<Longrightarrow> inert msg \<Longrightarrow> list_all clean_cell (new_row now lvl msg)"
  using plain_clean_text [of now] plain_clean_text [of "text_of lvl"] plain_clean_text [of "text_of msg"]
  by (simp add: new_row_def inert_text) (simp add: clean_text_def)


text \<open>
  With a timestamp, a level and a message that are plain, on a clean table: the call
  returns the last \<open>max_msg_cnt - 1\<close> rows of the table, unchanged, and the new row.
\<close>

lemma msg_add_inert:
  assumes "plain now" "inert (level_default lvl)" "inert msg" "clean tbl"
  shows "msg_add msg lvl now tbl
         = Return (drop (length tbl - (max_msg_cnt - 1)) tbl @ [new_row now (level_default lvl) msg])"
proof -
  let ?k = "length tbl - (max_msg_cnt - 1)"
  let ?l = "text_of (level_default lvl)" and ?m = "text_of msg"
  from assms(2,3) have conv: "to_string (level_default lvl) = Return ?l" "to_string msg = Return ?m"
    and texts: "plain ?l" "plain ?m"
    by (simp_all add: inert_text)
  have loop: "evict_loop (query_rows tbl) 0 (length (query_rows tbl)) (query_rows tbl)
              = Return (drop ?k (enumerate 0 tbl))"
    using evict_loop_drops [of 0 tbl] by (simp add: query_rows_def)
  have "parse_rows (serialize (drop ?k tbl) @ row_markup now ?l ?m)
        = parse In_body ([] @ drop ?k tbl) [] [] (row_markup now ?l ?m)"
    unfolding parse_rows_def using assms(4) by (intro parse_serialize clean_drop)
  also have "\<dots> = Return (drop ?k tbl @ [new_row now (level_default lvl) msg])"
    using assms(1) texts by (simp add: parse_row_markup new_row_def)
  finally show ?thesis
    by (simp add: msg_add_def conv loop rows_of_drop)
qed




section \<open>Sequences of calls on plain texts\<close>

lemma run_append:
  "run (cs @ ds) tbl =
     (case run cs tbl of Raise e \<Rightarrow> Raise e | Beyond \<Rightarrow> Beyond | Return tbl' \<Rightarrow> run ds tbl')"
  by (induction cs arbitrary: tbl) (auto split: outcome.splits)

lemma created_append: "created (cs @ ds) = created cs @ created ds"
  by (induction cs rule: created.induct) auto

lemma clean_created: "list_all inert_call cs \<Longrightarrow> clean (created cs)"
  by (induction cs rule: created.induct) (auto simp: clean_def clean_new_row)



lemma appends_snoc: "appends (args @ [(msg, lvl, now)]) = appends args @ [Msg_add msg lvl now]"
  by (simp add: appends_def)

lemma length_created_appends: "length (created (appends args)) = length args"
  by (induction args) (auto simp: appends_def)

lemma run_appends:
  "list_all inert_call (appends args) \<Longrightarrow>
   run (appends args) [] = Return (drop (length args - max_msg_cnt) (created (appends args)))"
proof (induction args rule: rev_induct)
  case Nil
  then show ?case by (simp add: appends_def)
next
  case (snoc a args)
  obtain msg lvl now where a: "a = (msg, lvl, now)"
    by (cases a) auto
  from snoc.prems have old_inert: "list_all inert_call (appends args)"
    and new_inert: "plain now" "inert (level_default lvl)" "inert msg"
    by (simp_all add: a appends_snoc)
  let ?old = "created (appends args)"
  let ?kept = "drop (length args - max_msg_cnt) ?old"
  have len: "length ?old = length args"
    by (rule length_created_appends)
  have kept_clean: "clean ?kept"
    using old_inert by (intro clean_drop clean_created)
  have "run (appends (args @ [a])) [] = msg_add msg lvl now ?kept"
    using snoc.IH [OF old_inert] by (simp add: a appends_snoc run_append split: outcome.splits)
  also have "\<dots> = Return (drop (length ?kept - (max_msg_cnt - 1)) ?kept @ [new_row now (level_default lvl) msg])"
    using new_inert kept_clean by (rule msg_add_inert)
  also have "drop (length ?kept - (max_msg_cnt - 1)) ?kept = drop (Suc (length args) - max_msg_cnt) ?old"
  proof -
    have "length ?kept - (max_msg_cnt - 1) + (length args - max_msg_cnt) = Suc (length args) - max_msg_cnt"
      using len by (simp add: max_msg_cnt_def)
    then show ?thesis
      by (simp only: drop_drop)
  qed
  also have "drop (Suc (length args) - max_msg_cnt) ?old @ [new_row now (level_default lvl) msg]
             = drop (length (args @ [a]) - max_msg_cnt) (created (appends (args @ [a])))"
    using len by (simp add: a appends_snoc created_append max_msg_cnt_def)
  finally show ?case .
qed



section \<open>The properties of the log\<close>













text \<open>
  C5 (six appends). From the empty table, six calls with the messages \<open>a\<close> to
  \<open>f\<close>, plain timestamps and the levels alternating between two values \<open>info\<close> and
  \<open>err\<close> that convert to plain text, leave exactly the five rows of \<open>b\<close>, \<open>c\<close>,
  \<open>d\<close>, \<open>e\<close>, \<open>f\<close> in this order; the row of \<open>a\<close> is gone.
\<close>

theorem six_appends:
  assumes "plain t1" "plain t2" "plain t3" "plain t4" "plain t5" "plain t6"
    and "inert (level_default info)" "inert (level_default err)"
  shows "run [Msg_add (JStr ''a'') info t1, Msg_add (JStr ''b'') err t2, Msg_add (JStr ''c'') info t3,
        Msg_add (JStr ''d'') err t4, Msg_add (JStr ''e'') info t5, Msg_add (JStr ''f'') err t6] []
   = Return [[Cell t2 None, Cell (text_of (level_default err)) None, Cell ''b'' None, Cell [] None],
             [Cell t3 None, Cell (text_of (level_default info)) None, Cell ''c'' None, Cell [] None],
             [Cell t4 None, Cell (text_of (level_default err)) None, Cell ''d'' None, Cell [] None],
             [Cell t5 None, Cell (text_of (level_default info)) None, Cell ''e'' None, Cell [] None],
             [Cell t6 None, Cell (text_of (level_default err)) None, Cell ''f'' None, Cell [] None]]"
proof -
  have msgs: "inert (JStr ''a'')" "inert (JStr ''b'')" "inert (JStr ''c'')"
    "inert (JStr ''d'')" "inert (JStr ''e'')" "inert (JStr ''f'')"
    by (simp_all add: inert_def plain_def)
  have "list_all inert_call (appends [(JStr ''a'', info, t1), (JStr ''b'', err, t2),
          (JStr ''c'', info, t3), (JStr ''d'', err, t4), (JStr ''e'', info, t5), (JStr ''f'', err, t6)])"
    using assms msgs by (simp add: appends_def)
  from run_appends [OF this] show ?thesis
    by (simp add: appends_def max_msg_cnt_def new_row_def text_of_def del: run.simps)
qed

text \<open>The scenario with the strings \<open>info\<close> and \<open>error\<close> as levels.\<close>

theorem six_appends_witness:
  "plain ''t1'' \<and> plain ''t2'' \<and> plain ''t3'' \<and> plain ''t4'' \<and> plain ''t5'' \<and> plain ''t6''
   \<and> inert (level_default (JStr ''info'')) \<and> inert (level_default (JStr ''error''))
   \<and> run [Msg_add (JStr ''a'') (JStr ''info'') ''t1'', Msg_add (JStr ''b'') (JStr ''error'') ''t2'',
           Msg_add (JStr ''c'') (JStr ''info'') ''t3'', Msg_add (JStr ''d'') (JStr ''error'') ''t4'',
           Msg_add (JStr ''e'') (JStr ''info'') ''t5'', Msg_add (JStr ''f'') (JStr ''error'') ''t6''] []
      = Return [[Cell ''t2'' None, Cell ''error'' None, Cell ''b'' None, Cell [] None],
                [Cell ''t3'' None, Cell ''info'' None, Cell ''c'' None, Cell [] None],
                [Cell ''t4'' None, Cell ''error'' None, Cell ''d'' None, Cell [] None],
                [Cell ''t5'' None, Cell ''info'' None, Cell ''e'' None, Cell [] None],
                [Cell ''t6'' None, Cell ''error'' None, Cell ''f'' None, Cell [] None]]"
proof -
  have hyps: "plain ''t1''" "plain ''t2''" "plain ''t3''" "plain ''t4''" "plain ''t5''" "plain ''t6''"
    "inert (level_default (JStr ''info''))" "inert (level_default (JStr ''error''))"
    by code_simp+
  from six_appends [OF hyps] hyps show ?thesis
    by (simp add: text_of_def level_default_def del: run.simps)
qed

text \<open>
  C6 (clear empties). \<open>msg_clear\<close> leaves no row, whatever the table held: the
  table, which is the rendered view, has length 0. On the empty table it changes nothing.
  It has no failing case: as a call it returns the empty table.
\<close>

theorem clear_empties:
  "msg_clear tbl = [] \<and> length (msg_clear tbl) = 0 \<and> msg_clear [] = [] \<and> exec Msg_clear tbl = Return []"
  by (simp add: msg_clear_def)












end
